theory Spec2Isabelle
  imports Complex_Main "HOL-Library.Multiset" "HOL-Library.Sublist" "HOL-Library.Extended_Nat"
begin

section \<open>Data model\<close>

text \<open>
  The notebook \<^verbatim>\<open>inference_motor.ipynb\<close> works on \<^verbatim>\<open>POI\<close> values with the fields
  printed in its cell outputs: \<^verbatim>\<open>POI(id, lat, lon, poi_type, fee_value, jurisdiction)\<close>.
  Python floats are idealised as reals (no NaN, no rounding); Python's unbounded
  integers are \<open>int\<close>. The field \<^verbatim>\<open>id\<close> is written \<open>id'\<close>.
\<close>

record POI =
  id' :: int
  lat :: real
  lon :: real
  poi_type :: string
  fee_value :: real
  jurisdiction :: string

section \<open>The route builder: \<^verbatim>\<open>Traveler._high_value_strategy\<close>\<close>

text \<open>
  \<^verbatim>\<open>d.get(k, default)\<close>: the default instead of a KeyError when the key is missing.
\<close>

definition dict_get :: "('k \<rightharpoonup> 'v) \<Rightarrow> 'k \<Rightarrow> 'v \<Rightarrow> 'v" where
  "dict_get d k dflt = (case d k of None \<Rightarrow> dflt | Some v \<Rightarrow> v)"

text \<open>
  \<^verbatim>\<open>xs.sort(key=key, reverse=True)\<close>: the list is reversed, sorted by a stable
  ascending sort (here insertion sort), and reversed again.
\<close>

definition sort_reverse :: "('a \<Rightarrow> real) \<Rightarrow> 'a list \<Rightarrow> 'a list" where
  "sort_reverse key xs = rev (sort_key key (rev xs))"

text \<open>
  The \<^verbatim>\<open>for poi in available_pois\<close> loop, with \<^verbatim>\<open>selected_pois\<close> as the
  accumulator. The validator \<^verbatim>\<open>self.simulator.optimizer.is_valid_route\<close> belongs to
  the imported module \<^verbatim>\<open>tax_inspector_competition\<close>; it is a parameter here, taken
  to be a pure predicate of the starting point and the route.
\<close>

fun select_loop ::
  "(POI \<Rightarrow> POI list \<Rightarrow> bool) \<Rightarrow> POI \<Rightarrow> POI list \<Rightarrow> POI list \<Rightarrow> POI list" where
  "select_loop is_valid_route starting_point selected_pois [] = selected_pois"
| "select_loop is_valid_route starting_point selected_pois (poi # rest) =
     (let test_route = selected_pois @ [poi] in
      if length test_route \<le> 8 \<and> is_valid_route starting_point test_route
      then select_loop is_valid_route starting_point (selected_pois @ [poi]) rest
      else select_loop is_valid_route starting_point selected_pois rest)"

text \<open>
  \<^verbatim>\<open>self.simulator.optimizer.jurisdictions\<close> is a dict from jurisdiction tag to the
  list of POIs; like the validator it comes with the simulator and is a parameter.
\<close>

definition high_value_strategy ::
  "(string \<rightharpoonup> POI list) \<Rightarrow> (POI \<Rightarrow> POI list \<Rightarrow> bool) \<Rightarrow> POI \<Rightarrow> POI list" where
  "high_value_strategy jurisdictions is_valid_route starting_point =
     (let jurisdiction_pois = dict_get jurisdictions (jurisdiction starting_point) [];
          available_pois = filter (\<lambda>poi. id' poi \<noteq> id' starting_point) jurisdiction_pois;
          available_pois = sort_reverse fee_value available_pois
      in select_loop is_valid_route starting_point [] available_pois)"

text \<open>
  The same loop and builder with the literal \<open>8\<close> replaced by a parameter that may be
  \<open>\<infinity>\<close>; only used to compare a capped with an uncapped run.
\<close>

fun select_loop_cap ::
  "enat \<Rightarrow> (POI \<Rightarrow> POI list \<Rightarrow> bool) \<Rightarrow> POI \<Rightarrow> POI list \<Rightarrow> POI list \<Rightarrow> POI list" where
  "select_loop_cap cap is_valid_route starting_point selected_pois [] = selected_pois"
| "select_loop_cap cap is_valid_route starting_point selected_pois (poi # rest) =
     (let test_route = selected_pois @ [poi] in
      if enat (length test_route) \<le> cap \<and> is_valid_route starting_point test_route
      then select_loop_cap cap is_valid_route starting_point (selected_pois @ [poi]) rest
      else select_loop_cap cap is_valid_route starting_point selected_pois rest)"

definition high_value_strategy_cap ::
  "enat \<Rightarrow> (string \<rightharpoonup> POI list) \<Rightarrow> (POI \<Rightarrow> POI list \<Rightarrow> bool) \<Rightarrow> POI \<Rightarrow> POI list" where
  "high_value_strategy_cap cap jurisdictions is_valid_route starting_point =
     (let jurisdiction_pois = dict_get jurisdictions (jurisdiction starting_point) [];
          available_pois = filter (\<lambda>poi. id' poi \<noteq> id' starting_point) jurisdiction_pois;
          available_pois = sort_reverse fee_value available_pois
      in select_loop_cap cap is_valid_route starting_point [] available_pois)"

text \<open>
  Cell 4: \<^verbatim>\<open>for ele in starting_points: paths.append(t._high_value_strategy(ele))\<close>.
\<close>

fun paths_loop ::
  "(string \<rightharpoonup> POI list) \<Rightarrow> (POI \<Rightarrow> POI list \<Rightarrow> bool) \<Rightarrow> POI list list \<Rightarrow> POI list
     \<Rightarrow> POI list list" where
  "paths_loop jurisdictions is_valid_route paths [] = paths"
| "paths_loop jurisdictions is_valid_route paths (ele # rest) =
     paths_loop jurisdictions is_valid_route
       (paths @ [high_value_strategy jurisdictions is_valid_route ele]) rest"

definition build_paths ::
  "(string \<rightharpoonup> POI list) \<Rightarrow> (POI \<Rightarrow> POI list \<Rightarrow> bool) \<Rightarrow> POI list \<Rightarrow> POI list list" where
  "build_paths jurisdictions is_valid_route starting_points =
     paths_loop jurisdictions is_valid_route [] starting_points"

text \<open>
  Modelled from the spec: the Route Feasibility Validator \<^verbatim>\<open>is_valid_route\<close> of the
  module \<^verbatim>\<open>tax_inspector_competition\<close>, which the notebook imports and which is not
  among the sources. The specification gives its constraint set: the route is no
  longer than the maximum stop count, all its POIs are of the starting point's
  jurisdiction, no POI repeats, and a cumulative travel-time budget, left open there,
  which is the parameter \<open>within_budget\<close>.
\<close>

definition is_valid_route_spec ::
  "enat \<Rightarrow> (POI \<Rightarrow> POI list \<Rightarrow> bool) \<Rightarrow> POI \<Rightarrow> POI list \<Rightarrow> bool" where
  "is_valid_route_spec max_stops within_budget starting_point route =
     (enat (length route) \<le> max_stops
      \<and> list_all (\<lambda>poi. jurisdiction poi = jurisdiction starting_point) route
      \<and> distinct (map id' route)
      \<and> within_budget starting_point route)"

subsection \<open>The builder as the specification words it\<close>

text \<open>
  Candidates: all POIs of the starting point's jurisdiction, without those carrying the
  starting point's id, in a stable sort by descending \<open>fee_value\<close>. Then one scan:
  a candidate is accepted exactly when the accepted list plus the candidate has at
  most 8 entries and the validator accepts it.
\<close>

definition spec_candidates :: "(string \<rightharpoonup> POI list) \<Rightarrow> POI \<Rightarrow> POI list" where
  "spec_candidates idx sp =
     sort_key (\<lambda>p. - fee_value p)
       (filter (\<lambda>p. id' p \<noteq> id' sp) (case idx (jurisdiction sp) of None \<Rightarrow> [] | Some ps \<Rightarrow> ps))"

definition spec_step :: "(POI \<Rightarrow> POI list \<Rightarrow> bool) \<Rightarrow> POI \<Rightarrow> POI list \<Rightarrow> POI \<Rightarrow> POI list" where
  "spec_step valid sp accepted c =
     (if length (accepted @ [c]) \<le> 8 \<and> valid sp (accepted @ [c]) then accepted @ [c] else accepted)"

definition spec_build_route ::
  "(string \<rightharpoonup> POI list) \<Rightarrow> (POI \<Rightarrow> POI list \<Rightarrow> bool) \<Rightarrow> POI \<Rightarrow> POI list" where
  "spec_build_route idx valid sp = foldl (spec_step valid sp) [] (spec_candidates idx sp)"

section \<open>The output table: cell 6\<close>

text \<open>
  \<^verbatim>\<open>str(n)\<close> for a non-negative integer: its decimal digits, most significant first.
\<close>

definition digit_char :: "nat \<Rightarrow> char" where
  "digit_char d = char_of (48 + d)"

fun str_nat :: "nat \<Rightarrow> string" where
  "str_nat n = (if n < 10 then [digit_char n] else str_nat (n div 10) @ [digit_char (n mod 10)])"

declare str_nat.simps [simp del]

text \<open>Reading a decimal string back, to show that \<open>str_nat\<close> loses nothing.\<close>

definition decimal_value :: "string \<Rightarrow> nat" where
  "decimal_value s = foldl (\<lambda>a c. 10 * a + (of_char c - 48)) 0 s"

text \<open>
  One dict per row, with the keys of the source: \<^verbatim>\<open>jurisdiction_id\<close> holds the
  position of the stop in its route (\<^verbatim>\<open>poi_idx\<close>). The row's \<^verbatim>\<open>lat\<close> and
  \<^verbatim>\<open>lon\<close> are written \<open>lat'\<close> and \<open>lon'\<close>.
\<close>

record row =
  route_id :: string
  jurisdiction_id :: nat
  poi_id :: int
  lat' :: real
  lon' :: real

definition make_row :: "nat \<Rightarrow> nat \<Rightarrow> POI \<Rightarrow> row" where
  "make_row route_idx poi_idx poi =
     \<lparr> route_id = ''R_'' @ jurisdiction poi @ ''_'' @ str_nat route_idx,
       jurisdiction_id = poi_idx,
       poi_id = id' poi,
       lat' = lat poi,
       lon' = lon poi \<rparr>"

fun inner_loop :: "nat \<Rightarrow> nat \<Rightarrow> row list \<Rightarrow> POI list \<Rightarrow> row list" where
  "inner_loop route_idx poi_idx flat [] = flat"
| "inner_loop route_idx poi_idx flat (poi # rest) =
     inner_loop route_idx (Suc poi_idx) (flat @ [make_row route_idx poi_idx poi]) rest"

fun outer_loop :: "nat \<Rightarrow> row list \<Rightarrow> POI list list \<Rightarrow> row list" where
  "outer_loop route_idx flat [] = flat"
| "outer_loop route_idx flat (poi_list # rest) =
     outer_loop (Suc route_idx) (inner_loop route_idx 0 flat poi_list) rest"

definition flat_data :: "POI list list \<Rightarrow> row list" where
  "flat_data paths = outer_loop 0 [] paths"

text \<open>
  Re-grouping the table by \<open>route_id\<close>, as the specification's round trip has it: one
  group per distinct \<open>route_id\<close>, groups in the order in which their ids first appear,
  the rows of a group in table order. A stop is what a row keeps of a POI.
\<close>

function regroup :: "row list \<Rightarrow> (string \<times> row list) list" where
  "regroup [] = []"
| "regroup (r # rs) =
     (route_id r, r # filter (\<lambda>x. route_id x = route_id r) rs)
       # regroup (filter (\<lambda>x. route_id x \<noteq> route_id r) rs)"
  by pat_completeness auto
termination
  by (relation "measure length") (simp_all add: less_Suc_eq_le)

text \<open>
  The table as the specification describes it: one row per (day, stop) pair, days in
  order and the stops of a day in route order; the \<open>route_id\<close> composed of the
  jurisdiction tag and the day index, then the stop's index, POI id and coordinates.
\<close>

definition route_id_of :: "string \<Rightarrow> nat \<Rightarrow> string" where
  "route_id_of tag day = ''R_'' @ tag @ ''_'' @ str_nat day"

definition rows_of_day :: "nat \<Rightarrow> POI list \<Rightarrow> row list" where
  "rows_of_day day route =
     map (\<lambda>(stop, poi).
            \<lparr> route_id = route_id_of (jurisdiction poi) day, jurisdiction_id = stop,
              poi_id = id' poi, lat' = lat poi, lon' = lon poi \<rparr>)
         (List.enumerate 0 route)"

definition spec_table :: "POI list list \<Rightarrow> row list" where
  "spec_table paths = concat (map (\<lambda>(day, route). rows_of_day day route) (List.enumerate 0 paths))"

text \<open>All POIs of a route carry one jurisdiction tag (that of the first).\<close>

definition same_jurisdiction :: "POI list \<Rightarrow> bool" where
  "same_jurisdiction route = list_all (\<lambda>poi. jurisdiction poi = jurisdiction (hd route)) route"

definition stop_of_row :: "row \<Rightarrow> int \<times> real \<times> real" where
  "stop_of_row r = (poi_id r, lat' r, lon' r)"

definition stop_of_poi :: "POI \<Rightarrow> int \<times> real \<times> real" where
  "stop_of_poi p = (id' p, lat p, lon p)"

definition regrouped_routes :: "row list \<Rightarrow> (int \<times> real \<times> real) list list" where
  "regrouped_routes rows = map (\<lambda>g. map stop_of_row (snd g)) (regroup rows)"

section \<open>The travel-time model\<close>

text \<open>
  Modelled from the spec: the Geo-Distance Model, whose code is in the imported module
  and not among the sources; the README's Routing section and the specification
  describe it. The great-circle distance by the Haversine formula with an Earth radius
  of 6371 km, coordinates in decimal degrees; the walking time at 5 km/h; the time
  corrected by the factor 2. Over the reals.
\<close>

definition radians :: "real \<Rightarrow> real" where
  "radians deg = deg * pi / 180"

definition haversine_km :: "real \<Rightarrow> real \<Rightarrow> real \<Rightarrow> real \<Rightarrow> real" where
  "haversine_km lat1 lon1 lat2 lon2 =
     (let dlat = radians lat2 - radians lat1;
          dlon = radians lon2 - radians lon1;
          a = (sin (dlat / 2))\<^sup>2 + cos (radians lat1) * cos (radians lat2) * (sin (dlon / 2))\<^sup>2
      in 6371 * (2 * arcsin (sqrt a)))"

definition travel_time :: "real \<Rightarrow> real \<Rightarrow> real \<Rightarrow> real \<Rightarrow> real" where
  "travel_time lat1 lon1 lat2 lon2 = haversine_km lat1 lon1 lat2 lon2 / 5 * 2"

section \<open>Example data\<close>

text \<open>
  The first starting point printed by the notebook (cell 3) and four POIs of its
  jurisdiction with the fees of the specification's example; ids, coordinates and
  types are those printed in cell 5. \<open>no_budget\<close> is the validator's budget check
  switched off.
\<close>

definition day1_start :: POI where
  "day1_start = \<lparr> id' = 9000, lat = 41.8907406, lon = 12.4773952,
     poi_type = ''starting_point'', fee_value = 0.0, jurisdiction = ''J5'' \<rparr>"

definition swimming_pool :: POI where
  "swimming_pool = \<lparr> id' = 5232181090, lat = 41.89043045043945, lon = 12.43865585327148,
     poi_type = ''swimming_pool'', fee_value = 240.34, jurisdiction = ''J5'' \<rparr>"

definition sports_centre :: POI where
  "sports_centre = \<lparr> id' = 11208102698, lat = 41.88479232788086, lon = 12.47138786315918,
     poi_type = ''sports_centre'', fee_value = 228.10, jurisdiction = ''J5'' \<rparr>"

definition bakery :: POI where
  "bakery = \<lparr> id' = 4224427195, lat = 41.88856506347656, lon = 12.47531795501709,
     poi_type = ''bakery'', fee_value = 171.01, jurisdiction = ''J5'' \<rparr>"

definition hairdresser :: POI where
  "hairdresser = \<lparr> id' = 10248418330, lat = 41.89698791503906, lon = 12.47434425354004,
     poi_type = ''hairdresser'', fee_value = 139.23, jurisdiction = ''J5'' \<rparr>"

definition example_jurisdictions :: "string \<rightharpoonup> POI list" where
  "example_jurisdictions = [''J5'' \<mapsto> [bakery, swimming_pool, hairdresser, sports_centre]]"

definition no_budget :: "POI \<Rightarrow> POI list \<Rightarrow> bool" where
  "no_budget starting_point route = True"

section \<open>The builder follows the specified procedure\<close>

lemma sorted_neg_rev:
  fixes key :: "'a \<Rightarrow> real"
  assumes "sorted (map key ys)"
  shows "sorted (map (\<lambda>x. - key x) (rev ys))"
proof -
  have "sorted_wrt (\<lambda>x y. key x \<le> key y) ys"
    using assms by (simp add: sorted_wrt_map)
  then have "sorted_wrt (\<lambda>x y. - key y \<le> - key x) ys" by simp
  then show ?thesis by (simp add: sorted_wrt_map sorted_wrt_rev)
qed

lemma sort_reverse_stable:
  "filter (\<lambda>x. key x = v) (sort_reverse key xs) = filter (\<lambda>x. key x = v) xs"
proof -
  have "filter (\<lambda>x. key x = v) (sort_key key (rev xs)) = filter (\<lambda>x. key x = v) (rev xs)"
    by (rule sort_key_stable)
  then have "rev (filter (\<lambda>x. key x = v) (sort_key key (rev xs))) = filter (\<lambda>x. key x = v) xs"
    by (simp add: rev_filter)
  then show ?thesis by (simp add: sort_reverse_def rev_filter)
qed

lemma mset_sort_reverse: "mset (sort_reverse key xs) = mset xs"
  by (simp add: sort_reverse_def)

lemma sort_reverse_descending: "sorted (map (\<lambda>x. - key x) (sort_reverse key xs))"
  unfolding sort_reverse_def by (rule sorted_neg_rev) simp

lemma sort_reverse_neg_key: "sort_reverse key xs = sort_key (\<lambda>x. - key x) xs"
proof -
  have "sort_key (\<lambda>x. - key x) xs = sort_reverse key xs"
  proof (rule properties_for_sort_key)
    show "mset (sort_reverse key xs) = mset xs" by (rule mset_sort_reverse)
  next
    fix k
    have "filter (\<lambda>x. key x = key k) (sort_reverse key xs) = filter (\<lambda>x. key x = key k) xs"
      by (rule sort_reverse_stable)
    then show "filter (\<lambda>x. - key k = - key x) (sort_reverse key xs)
                 = filter (\<lambda>x. - key k = - key x) xs"
      by (simp add: eq_commute)
  next
    show "sorted (map (\<lambda>x. - key x) (sort_reverse key xs))"
      by (rule sort_reverse_descending)
  qed
  then show ?thesis by simp
qed

lemma select_loop_foldl:
  "select_loop valid sp acc cands = foldl (spec_step valid sp) acc cands"
  by (induction cands arbitrary: acc) (simp_all add: spec_step_def Let_def)

text \<open>
  C1. For every index, validator and starting point, the builder of the notebook
  returns the route of the specified procedure: the POIs of the starting point's
  jurisdiction without those of the starting point's id, stably sorted by descending
  fee, scanned once, a candidate kept exactly when the tentative route has at most 8
  entries and is valid.
\<close>

theorem high_value_strategy_refines_spec:
  "high_value_strategy jurisdictions is_valid_route starting_point
     = spec_build_route jurisdictions is_valid_route starting_point"
  by (simp add: high_value_strategy_def spec_build_route_def spec_candidates_def
      dict_get_def sort_reverse_neg_key select_loop_foldl Let_def)

section \<open>Invariants of the selection loop\<close>

lemma select_loop_extends:
  "\<exists>zs. select_loop valid sp acc cands = acc @ zs \<and> subseq zs cands"
proof (induction cands arbitrary: acc)
  case Nil
  then show ?case by simp
next
  case (Cons c cands)
  show ?case
  proof (cases "length (acc @ [c]) \<le> 8 \<and> valid sp (acc @ [c])")
    case True
    from Cons.IH [of "acc @ [c]"] obtain zs
      where "select_loop valid sp (acc @ [c]) cands = (acc @ [c]) @ zs" "subseq zs cands"
      by blast
    with True have "select_loop valid sp acc (c # cands) = acc @ (c # zs) \<and> subseq (c # zs) (c # cands)"
      by simp
    then show ?thesis by blast
  next
    case False
    from Cons.IH [of acc] obtain zs
      where "select_loop valid sp acc cands = acc @ zs" "subseq zs cands"
      by blast
    with False have "select_loop valid sp acc (c # cands) = acc @ zs \<and> subseq zs (c # cands)"
      by auto
    then show ?thesis by blast
  qed
qed

lemma select_loop_length:
  "length acc \<le> 8 \<Longrightarrow> length (select_loop valid sp acc cands) \<le> 8"
  by (induction cands arbitrary: acc) (simp_all add: Let_def)

lemma select_loop_valid:
  "acc = [] \<or> valid sp acc \<Longrightarrow>
   select_loop valid sp acc cands = [] \<or> valid sp (select_loop valid sp acc cands)"
  by (induction cands arbitrary: acc) (simp_all add: Let_def)

lemma candidates_descending:
  "sorted_wrt (\<lambda>p q. fee_value q \<le> fee_value p) (sort_reverse fee_value xs)"
  using sort_reverse_descending [of fee_value xs] by (simp add: sorted_wrt_map)

lemma high_value_strategy_subseq:
  "subseq (high_value_strategy jurisdictions valid sp)
     (sort_reverse fee_value
        (filter (\<lambda>poi. id' poi \<noteq> id' sp) (dict_get jurisdictions (jurisdiction sp) [])))"
  using select_loop_extends [of valid sp "[]"]
  by (auto simp: high_value_strategy_def Let_def)

lemma subseq_keeps_sorted_wrt:
  "subseq xs ys \<Longrightarrow> sorted_wrt P ys \<Longrightarrow> sorted_wrt P xs"
proof (induction rule: list_emb.induct)
  case (list_emb_Nil ys)
  then show ?case by simp
next
  case (list_emb_Cons xs ys y)
  then show ?case by simp
next
  case (list_emb_Cons2 x y xs ys)
  then have "set xs \<subseteq> set ys" by (auto dest: list_emb_set)
  with list_emb_Cons2 show ?case by auto
qed

lemma high_value_strategy_descending:
  "sorted_wrt (\<lambda>p q. fee_value q \<le> fee_value p) (high_value_strategy jurisdictions valid sp)"
  using high_value_strategy_subseq candidates_descending
  by (rule subseq_keeps_sorted_wrt)

text \<open>
  C6. For every index, validator and starting point, the returned route is ordered by
  non-increasing \<open>fee_value\<close>: at positions \<open>i < j\<close> of the route, the fee at
  \<open>i\<close> is at least the fee at \<open>j\<close>.
\<close>

theorem route_fee_non_increasing:
  "\<forall>i j. i < j \<and> j < length (high_value_strategy jurisdictions is_valid_route starting_point)
     \<longrightarrow> fee_value (high_value_strategy jurisdictions is_valid_route starting_point ! j)
           \<le> fee_value (high_value_strategy jurisdictions is_valid_route starting_point ! i)"
  using high_value_strategy_descending [of jurisdictions is_valid_route starting_point]
  by (simp add: sorted_wrt_iff_nth_less)

lemma built_route_valid:
  "high_value_strategy jurisdictions valid sp = []
   \<or> valid sp (high_value_strategy jurisdictions valid sp)"
  unfolding high_value_strategy_def Let_def by (rule select_loop_valid) simp

lemma built_route_length: "length (high_value_strategy jurisdictions valid sp) \<le> 8"
  by (simp add: high_value_strategy_def Let_def select_loop_length)

lemma built_route_jurisdiction:
  assumes "poi \<in> set (high_value_strategy jurisdictions (is_valid_route_spec max_stops within_budget) sp)"
  shows "jurisdiction poi = jurisdiction sp"
  using assms built_route_valid [of jurisdictions "is_valid_route_spec max_stops within_budget" sp]
  by (auto simp: is_valid_route_spec_def list_all_iff)

lemma built_route_distinct_ids:
  "distinct (map id' (high_value_strategy jurisdictions
     (is_valid_route_spec max_stops within_budget) sp))"
  using built_route_valid [of jurisdictions "is_valid_route_spec max_stops within_budget" sp]
  by (auto simp: is_valid_route_spec_def)

text \<open>
  C2. With the validator of the specification (any maximum stop count, any budget
  check), for every index and starting point the returned route has at most 8
  entries, no two of its POIs have the same id, and each of its POIs has the
  jurisdiction of the starting point. The bound 8 is the loop's own check; the other
  two parts are what the validator enforces on each accepted route.
\<close>

theorem route_bounded_distinct_same_jurisdiction:
  "length (high_value_strategy jurisdictions
             (is_valid_route_spec max_stops within_budget) starting_point) \<le> 8
   \<and> distinct (map id' (high_value_strategy jurisdictions
             (is_valid_route_spec max_stops within_budget) starting_point))
   \<and> (\<forall>poi \<in> set (high_value_strategy jurisdictions
             (is_valid_route_spec max_stops within_budget) starting_point).
         jurisdiction poi = jurisdiction starting_point)"
  by (simp add: built_route_length built_route_distinct_ids built_route_jurisdiction)

section \<open>The example data evaluated\<close>

lemma example_start:
  "id' day1_start = 9000" "jurisdiction day1_start = ''J5''"
  "lat day1_start = 41.8907406" "lon day1_start = 12.4773952"
  by (simp_all add: day1_start_def)

lemma example_ids:
  "id' swimming_pool = 5232181090" "id' sports_centre = 11208102698"
  "id' bakery = 4224427195" "id' hairdresser = 10248418330"
  by (simp_all add: swimming_pool_def sports_centre_def bakery_def hairdresser_def)

lemma example_fees:
  "fee_value swimming_pool = 240.34" "fee_value sports_centre = 228.10"
  "fee_value bakery = 171.01" "fee_value hairdresser = 139.23"
  by (simp_all add: swimming_pool_def sports_centre_def bakery_def hairdresser_def)

lemma example_jurisdictions_of:
  "jurisdiction swimming_pool = ''J5''" "jurisdiction sports_centre = ''J5''"
  "jurisdiction bakery = ''J5''" "jurisdiction hairdresser = ''J5''"
  by (simp_all add: swimming_pool_def sports_centre_def bakery_def hairdresser_def)

lemma example_candidates:
  "filter (\<lambda>poi. id' poi \<noteq> id' day1_start) (dict_get example_jurisdictions ''J5'' [])
     = [bakery, swimming_pool, hairdresser, sports_centre]"
  by (simp add: example_jurisdictions_def dict_get_def example_start example_ids)

lemma example_sorted:
  "sort_reverse fee_value [bakery, swimming_pool, hairdresser, sports_centre]
     = [swimming_pool, sports_centre, bakery, hairdresser]"
  by (simp add: sort_reverse_def example_fees)

lemma example_valid:
  "is_valid_route_spec 8 no_budget day1_start [swimming_pool]"
  "is_valid_route_spec 8 no_budget day1_start [swimming_pool, sports_centre]"
  "is_valid_route_spec 8 no_budget day1_start [swimming_pool, sports_centre, bakery]"
  "is_valid_route_spec 8 no_budget day1_start [swimming_pool, sports_centre, bakery, hairdresser]"
  by (simp_all add: is_valid_route_spec_def no_budget_def example_start example_ids
      example_jurisdictions_of numeral_eq_enat)

lemma example_route:
  "high_value_strategy example_jurisdictions (is_valid_route_spec 8 no_budget) day1_start
     = [swimming_pool, sports_centre, bakery, hairdresser]"
  by (simp add: high_value_strategy_def Let_def example_start(2) example_candidates
      example_sorted example_valid)

theorem route_fee_non_increasing_witness:
  "(0::nat) < 1
   \<and> 1 < length (high_value_strategy example_jurisdictions (is_valid_route_spec 8 no_budget) day1_start)
   \<and> fee_value (high_value_strategy example_jurisdictions (is_valid_route_spec 8 no_budget) day1_start ! 1)
       \<le> fee_value (high_value_strategy example_jurisdictions (is_valid_route_spec 8 no_budget) day1_start ! 0)"
proof -
  have h: "(0::nat) < 1
    \<and> 1 < length (high_value_strategy example_jurisdictions (is_valid_route_spec 8 no_budget) day1_start)"
    by (simp add: example_route)
  with route_fee_non_increasing [of example_jurisdictions "is_valid_route_spec 8 no_budget" day1_start]
  show ?thesis by blast
qed

theorem route_bounded_distinct_same_jurisdiction_witness:
  "high_value_strategy example_jurisdictions (is_valid_route_spec 8 no_budget) day1_start
     = [swimming_pool, sports_centre, bakery, hairdresser]
   \<and> length [swimming_pool, sports_centre, bakery, hairdresser] \<le> 8
   \<and> distinct (map id' [swimming_pool, sports_centre, bakery, hairdresser])
   \<and> map jurisdiction [swimming_pool, sports_centre, bakery, hairdresser]
       = replicate 4 (jurisdiction day1_start)"
  using route_bounded_distinct_same_jurisdiction [of example_jurisdictions 8 no_budget day1_start]
  by (simp only: example_route) (simp add: numeral_eq_Suc)

section \<open>The example of the specification\<close>

lemma select_loop_four:
  assumes "valid sp [a]" "valid sp [a, b]" "valid sp [a, b, c]" "valid sp [a, b, c, d]"
  shows "select_loop valid sp [] [a, b, c, d] = [a, b, c, d]"
  using assms by simp

lemma sort_reverse_four:
  assumes pool: "mset pool = {#a, b, c, d#}"
    and fees: "key d < key c" "key c < key b" "key b < key a"
  shows "sort_reverse key pool = [a, b, c, d]"
proof -
  have "set pool = {a, b, c, d}"
    using pool by (metis set_mset_mset set_mset_add_mset_insert set_mset_empty)
  with fees have inj: "inj_on (\<lambda>x. - key x) (set pool)"
    by (auto simp: inj_on_def)
  have "sort_key (\<lambda>x. - key x) pool = [a, b, c, d]"
  proof (rule sort_key_inj_key_eq)
    show "mset pool = mset [a, b, c, d]" using pool by simp
    show "inj_on (\<lambda>x. - key x) (set pool)" by (rule inj)
    show "sorted (map (\<lambda>x. - key x) [a, b, c, d])" using fees by simp
  qed
  then show ?thesis by (simp add: sort_reverse_neg_key)
qed

text \<open>
  C3. A starting point at (41.8907406, 12.4773952) in jurisdiction J5; its candidates
  (the POIs indexed under J5 whose id is not the starting point's) are, in any order,
  four POIs \<open>a\<close>, \<open>b\<close>, \<open>c\<close>, \<open>d\<close> with the fees 240.34, 228.10, 171.01 and
  139.23; the validator accepts the routes built from them. Then the builder returns
  exactly \<open>[a, b, c, d]\<close>, in strictly descending fee order. Of the mutual
  feasibility only the four routes that the scan tries are needed.
\<close>

theorem example_route_four_descending:
  assumes "lat starting_point = 41.8907406" and "lon starting_point = 12.4773952"
    and "jurisdiction starting_point = ''J5''"
    and "mset (filter (\<lambda>poi. id' poi \<noteq> id' starting_point) (dict_get jurisdictions ''J5'' []))
           = {#a, b, c, d#}"
    and "fee_value a = 240.34" and "fee_value b = 228.10"
    and "fee_value c = 171.01" and "fee_value d = 139.23"
    and "is_valid_route starting_point [a]"
    and "is_valid_route starting_point [a, b]"
    and "is_valid_route starting_point [a, b, c]"
    and "is_valid_route starting_point [a, b, c, d]"
  shows "high_value_strategy jurisdictions is_valid_route starting_point = [a, b, c, d]
         \<and> sorted_wrt (\<lambda>p q. fee_value q < fee_value p)
              (high_value_strategy jurisdictions is_valid_route starting_point)"
proof -
  let ?pool = "filter (\<lambda>poi. id' poi \<noteq> id' starting_point) (dict_get jurisdictions ''J5'' [])"
  have "sort_reverse fee_value ?pool = [a, b, c, d]"
    using assms(4) by (rule sort_reverse_four) (simp_all add: assms(5-8))
  then have "high_value_strategy jurisdictions is_valid_route starting_point
      = select_loop is_valid_route starting_point [] [a, b, c, d]"
    by (simp add: high_value_strategy_def Let_def assms(3))
  also have "\<dots> = [a, b, c, d]"
    using assms(9-12) by (rule select_loop_four)
  finally have r: "high_value_strategy jurisdictions is_valid_route starting_point = [a, b, c, d]" .
  have "sorted_wrt (\<lambda>p q. fee_value q < fee_value p) [a, b, c, d]"
    by (simp add: assms(5-8))
  with r show ?thesis by simp
qed

theorem example_route_four_descending_witness:
  "high_value_strategy example_jurisdictions (is_valid_route_spec 8 no_budget) day1_start
     = [swimming_pool, sports_centre, bakery, hairdresser]
   \<and> sorted_wrt (\<lambda>p q. fee_value q < fee_value p)
        (high_value_strategy example_jurisdictions (is_valid_route_spec 8 no_budget) day1_start)"
proof (rule example_route_four_descending)
  show "lat day1_start = 41.8907406" "lon day1_start = 12.4773952"
    "jurisdiction day1_start = ''J5''"
    by (simp_all add: example_start)
  show "mset (filter (\<lambda>poi. id' poi \<noteq> id' day1_start) (dict_get example_jurisdictions ''J5'' []))
          = {#swimming_pool, sports_centre, bakery, hairdresser#}"
    by (simp add: example_candidates)
  show "fee_value swimming_pool = 240.34" "fee_value sports_centre = 228.10"
    "fee_value bakery = 171.01" "fee_value hairdresser = 139.23"
    by (simp_all add: example_fees)
  show "is_valid_route_spec 8 no_budget day1_start [swimming_pool]"
    "is_valid_route_spec 8 no_budget day1_start [swimming_pool, sports_centre]"
    "is_valid_route_spec 8 no_budget day1_start [swimming_pool, sports_centre, bakery]"
    "is_valid_route_spec 8 no_budget day1_start [swimming_pool, sports_centre, bakery, hairdresser]"
    by (rule example_valid)+
qed

section \<open>Empty candidate sets and the multi-day loop\<close>

lemma paths_loop_map:
  "paths_loop jurisdictions valid paths sps
     = paths @ map (high_value_strategy jurisdictions valid) sps"
  by (induction sps arbitrary: paths) simp_all

lemma build_paths_map:
  "build_paths jurisdictions valid sps = map (high_value_strategy jurisdictions valid) sps"
  by (simp add: build_paths_def paths_loop_map)

lemma no_candidates_empty_route:
  assumes "filter (\<lambda>poi. id' poi \<noteq> id' sp) (dict_get jurisdictions (jurisdiction sp) []) = []"
  shows "high_value_strategy jurisdictions valid sp = []"
  using assms by (simp add: high_value_strategy_def Let_def sort_reverse_def)

text \<open>
  C4. When the starting point's jurisdiction is not a key of the index, or the
  jurisdiction has no candidate POI, the builder returns the empty route (the lookup
  is \<^verbatim>\<open>get\<close> with default \<^verbatim>\<open>[]\<close>, no error branch is reached), and in the
  multi-day loop the routes of the days before and after are those of the runs
  without that day.
\<close>

theorem unknown_jurisdiction_empty_route:
  assumes "jurisdictions (jurisdiction starting_point) = None
           \<or> filter (\<lambda>poi. id' poi \<noteq> id' starting_point)
                (dict_get jurisdictions (jurisdiction starting_point) []) = []"
  shows "high_value_strategy jurisdictions is_valid_route starting_point = []
         \<and> build_paths jurisdictions is_valid_route (before @ starting_point # after)
             = build_paths jurisdictions is_valid_route before
                 @ [] # build_paths jurisdictions is_valid_route after"
proof -
  have "filter (\<lambda>poi. id' poi \<noteq> id' starting_point)
          (dict_get jurisdictions (jurisdiction starting_point) []) = []"
    using assms by (auto simp: dict_get_def)
  then have "high_value_strategy jurisdictions is_valid_route starting_point = []"
    by (rule no_candidates_empty_route)
  then show ?thesis by (simp add: build_paths_map)
qed

theorem unknown_jurisdiction_empty_route_witness:
  "example_jurisdictions (jurisdiction (day1_start\<lparr>jurisdiction := ''J9''\<rparr>)) = None
   \<and> high_value_strategy example_jurisdictions (is_valid_route_spec 8 no_budget)
        (day1_start\<lparr>jurisdiction := ''J9''\<rparr>) = []
   \<and> build_paths example_jurisdictions (is_valid_route_spec 8 no_budget)
        ([day1_start] @ day1_start\<lparr>jurisdiction := ''J9''\<rparr> # [day1_start])
       = build_paths example_jurisdictions (is_valid_route_spec 8 no_budget) [day1_start]
           @ [] # build_paths example_jurisdictions (is_valid_route_spec 8 no_budget) [day1_start]"
proof -
  have h: "example_jurisdictions (jurisdiction (day1_start\<lparr>jurisdiction := ''J9''\<rparr>)) = None"
    by (simp add: example_jurisdictions_def)
  from h unknown_jurisdiction_empty_route
    [of example_jurisdictions "day1_start\<lparr>jurisdiction := ''J9''\<rparr>"
        "is_valid_route_spec 8 no_budget" "[day1_start]" "[day1_start]"]
  show ?thesis by blast
qed

section \<open>Determinism and the stable sort\<close>

lemma stable_descending_unique:
  fixes key :: "'a \<Rightarrow> real"
  assumes "mset ys = mset xs"
    and "sorted (rev (map key ys))"
    and "\<forall>v. filter (\<lambda>x. key x = v) ys = filter (\<lambda>x. key x = v) xs"
  shows "ys = sort_reverse key xs"
proof -
  have "sort_key (\<lambda>x. - key x) xs = ys"
  proof (rule properties_for_sort_key)
    show "mset ys = mset xs" by (rule assms(1))
  next
    fix k
    from assms(3) have "filter (\<lambda>x. key x = key k) ys = filter (\<lambda>x. key x = key k) xs"
      by blast
    then show "filter (\<lambda>x. - key k = - key x) ys = filter (\<lambda>x. - key k = - key x) xs"
      by (simp add: eq_commute)
  next
    have "sorted (map key (rev ys))" using assms(2) by (simp add: rev_map)
    then have "sorted (map (\<lambda>x. - key x) (rev (rev ys)))" by (rule sorted_neg_rev)
    then show "sorted (map (\<lambda>x. - key x) ys)" by simp
  qed
  then show ?thesis by (simp add: sort_reverse_neg_key)
qed

lemma sort_reverse_sorted_rev: "sorted (rev (map key (sort_reverse key xs)))"
  by (simp add: sort_reverse_def rev_map)

text \<open>
  C5. The candidate sort is stable and descending: it permutes the candidates, puts
  the fees in non-increasing order and keeps the candidates of each fee in their
  order in the dataset. These three properties fix the sorted list, so any scan over
  a stably, descendingly sorted arrangement of the candidates yields the builder's
  route; and the route depends on the index only through the entry of the starting
  point's jurisdiction and on the validator only through its verdicts for this
  starting point.
\<close>

theorem route_deterministic_stable_sort:
  "(\<forall>v. filter (\<lambda>poi. fee_value poi = v) (sort_reverse fee_value available_pois)
          = filter (\<lambda>poi. fee_value poi = v) available_pois)
   \<and> mset (sort_reverse fee_value available_pois) = mset available_pois
   \<and> sorted (rev (map fee_value (sort_reverse fee_value available_pois)))
   \<and> (mset ys = mset (filter (\<lambda>poi. id' poi \<noteq> id' starting_point)
                        (dict_get jurisdictions (jurisdiction starting_point) []))
      \<and> sorted (rev (map fee_value ys))
      \<and> (\<forall>v. filter (\<lambda>poi. fee_value poi = v) ys
              = filter (\<lambda>poi. fee_value poi = v)
                  (filter (\<lambda>poi. id' poi \<noteq> id' starting_point)
                     (dict_get jurisdictions (jurisdiction starting_point) [])))
      \<longrightarrow> select_loop is_valid_route starting_point [] ys
            = high_value_strategy jurisdictions is_valid_route starting_point)
   \<and> (jurisdictions (jurisdiction starting_point) = jurisdictions' (jurisdiction starting_point)
      \<and> (\<forall>route. is_valid_route starting_point route = is_valid_route' starting_point route)
      \<longrightarrow> high_value_strategy jurisdictions is_valid_route starting_point
            = high_value_strategy jurisdictions' is_valid_route' starting_point)"
proof (intro conjI impI allI)
  fix v
  show "filter (\<lambda>poi. fee_value poi = v) (sort_reverse fee_value available_pois)
          = filter (\<lambda>poi. fee_value poi = v) available_pois"
    by (rule sort_reverse_stable)
next
  show "mset (sort_reverse fee_value available_pois) = mset available_pois"
    by (rule mset_sort_reverse)
next
  show "sorted (rev (map fee_value (sort_reverse fee_value available_pois)))"
    by (rule sort_reverse_sorted_rev)
next
  let ?cands = "filter (\<lambda>poi. id' poi \<noteq> id' starting_point)
                  (dict_get jurisdictions (jurisdiction starting_point) [])"
  assume h: "mset ys = mset ?cands \<and> sorted (rev (map fee_value ys))
      \<and> (\<forall>v. filter (\<lambda>poi. fee_value poi = v) ys = filter (\<lambda>poi. fee_value poi = v) ?cands)"
  then have "ys = sort_reverse fee_value ?cands"
    by (intro stable_descending_unique) simp_all
  then show "select_loop is_valid_route starting_point [] ys
      = high_value_strategy jurisdictions is_valid_route starting_point"
    by (simp add: high_value_strategy_def Let_def)
next
  assume h: "jurisdictions (jurisdiction starting_point) = jurisdictions' (jurisdiction starting_point)
      \<and> (\<forall>route. is_valid_route starting_point route = is_valid_route' starting_point route)"
  then have "is_valid_route starting_point = is_valid_route' starting_point" by auto
  have eq: "select_loop is_valid_route starting_point acc cands
      = select_loop is_valid_route' starting_point acc cands" for acc cands
    using h by (induction cands arbitrary: acc) (simp_all add: Let_def)
  from h show "high_value_strategy jurisdictions is_valid_route starting_point
      = high_value_strategy jurisdictions' is_valid_route' starting_point"
    by (simp add: high_value_strategy_def Let_def dict_get_def eq)
qed

theorem route_deterministic_stable_sort_witness:
  "select_loop (is_valid_route_spec 8 no_budget) day1_start []
       [swimming_pool, sports_centre, bakery, hairdresser]
     = high_value_strategy example_jurisdictions (is_valid_route_spec 8 no_budget) day1_start
   \<and> high_value_strategy example_jurisdictions (is_valid_route_spec 8 no_budget) day1_start
     = high_value_strategy (example_jurisdictions(''J6'' \<mapsto> []))
         (\<lambda>sp route. is_valid_route_spec 8 no_budget sp route \<and> length route \<le> 8) day1_start"
proof -
  let ?ys = "[swimming_pool, sports_centre, bakery, hairdresser]"
  let ?cands = "filter (\<lambda>poi. id' poi \<noteq> id' day1_start)
                  (dict_get example_jurisdictions (jurisdiction day1_start) [])"
  have cands: "?cands = [bakery, swimming_pool, hairdresser, sports_centre]"
    by (simp add: example_start(2) example_candidates)
  have h1: "mset ?ys = mset ?cands"
    by (simp add: cands)
  have h2: "sorted (rev (map fee_value ?ys))"
    by (simp add: example_fees)
  have h3: "\<forall>v. filter (\<lambda>poi. fee_value poi = v) ?ys = filter (\<lambda>poi. fee_value poi = v) ?cands"
    unfolding cands by (auto simp: example_fees)
  have h4: "example_jurisdictions (jurisdiction day1_start)
      = (example_jurisdictions(''J6'' \<mapsto> [])) (jurisdiction day1_start)"
    by (simp add: example_start)
  have h5: "\<forall>route. is_valid_route_spec 8 no_budget day1_start route
      = (is_valid_route_spec 8 no_budget day1_start route \<and> length route \<le> 8)"
    by (auto simp: is_valid_route_spec_def numeral_eq_enat)
  from h1 h2 h3 h4 h5 route_deterministic_stable_sort
    [of "[]" ?ys day1_start example_jurisdictions "is_valid_route_spec 8 no_budget"
        "example_jurisdictions(''J6'' \<mapsto> [])"
        "\<lambda>sp route. is_valid_route_spec 8 no_budget sp route \<and> length route \<le> 8"]
  show ?thesis by blast
qed

section \<open>Lifting the stop cap\<close>

lemma select_loop_cap_8:
  "select_loop_cap 8 valid sp acc cands = select_loop valid sp acc cands"
  by (induction cands arbitrary: acc) (simp_all add: Let_def numeral_eq_enat)

lemma high_value_strategy_cap_8:
  "high_value_strategy_cap 8 jurisdictions valid sp = high_value_strategy jurisdictions valid sp"
  by (simp add: high_value_strategy_cap_def high_value_strategy_def select_loop_cap_8)

lemma select_loop_cap_extends:
  "prefix acc (select_loop_cap cap valid sp acc cands)"
proof (induction cands arbitrary: acc)
  case Nil
  then show ?case by simp
next
  case (Cons c cands)
  have "prefix acc (acc @ [c])" by simp
  also have "prefix (acc @ [c]) (select_loop_cap cap valid sp (acc @ [c]) cands)"
    by (rule Cons.IH)
  finally have "prefix acc (select_loop_cap cap valid sp (acc @ [c]) cands)" .
  with Cons.IH [of acc] show ?case by (simp add: Let_def)
qed

lemma select_loop_cap_full:
  "cap \<le> enat (length acc) \<Longrightarrow> select_loop_cap cap valid sp acc cands = acc"
proof (induction cands)
  case Nil
  then show ?case by simp
next
  case (Cons c cands)
  from Cons.prems have "\<not> enat (Suc (length acc)) \<le> cap"
    by (cases cap) auto
  with Cons show ?case by (simp add: Let_def)
qed

lemma select_loop_cap_mono:
  "cap \<le> cap' \<Longrightarrow>
   prefix (select_loop_cap cap valid sp acc cands) (select_loop_cap cap' valid sp acc cands)"
proof (induction cands arbitrary: acc)
  case Nil
  then show ?case by simp
next
  case (Cons c cands)
  show ?case
  proof (cases "valid sp (acc @ [c])")
    case False
    with Cons show ?thesis by (simp add: Let_def)
  next
    case True
    show ?thesis
    proof (cases "enat (Suc (length acc)) \<le> cap")
      case le: True
      from le Cons.prems have "enat (Suc (length acc)) \<le> cap'" by (rule order_trans)
      with le True Cons show ?thesis by (simp add: Let_def)
    next
      case gt: False
      then have "cap \<le> enat (length acc)"
        by (cases cap) auto
      then have full: "select_loop_cap cap valid sp acc (c # cands) = acc"
        by (rule select_loop_cap_full)
      show ?thesis unfolding full by (rule select_loop_cap_extends)
    qed
  qed
qed

lemma select_loop_validators_agree:
  "(\<And>route. length route \<le> 8 \<Longrightarrow> valid sp route = valid' sp route) \<Longrightarrow>
   select_loop valid sp acc cands = select_loop valid' sp acc cands"
  by (induction cands arbitrary: acc) (auto simp: Let_def)

lemma select_loop_cap_validators_agree:
  "(\<And>route. valid sp route = valid' sp route) \<Longrightarrow>
   select_loop_cap cap valid sp acc cands = select_loop_cap cap valid' sp acc cands"
  by (induction cands arbitrary: acc) (auto simp: Let_def)

text \<open>
  C8. For every index, validator and starting point, the route built with the cap of
  8 stops is a prefix of the route built with the cap replaced by infinity: the
  uncapped route equals the capped one or extends it. This holds when the validator
  is the same in both runs, and also when the validator of the specification has its
  own maximum stop count lifted from 8 to infinity along with the loop's.
\<close>

theorem uncapped_route_extends_capped:
  "prefix (high_value_strategy jurisdictions is_valid_route starting_point)
          (high_value_strategy_cap \<infinity> jurisdictions is_valid_route starting_point)
   \<and> prefix (high_value_strategy jurisdictions
               (is_valid_route_spec 8 within_budget) starting_point)
            (high_value_strategy_cap \<infinity> jurisdictions
               (is_valid_route_spec \<infinity> within_budget) starting_point)"
proof
  have "prefix (high_value_strategy_cap 8 jurisdictions is_valid_route starting_point)
          (high_value_strategy_cap \<infinity> jurisdictions is_valid_route starting_point)"
    for is_valid_route
    unfolding high_value_strategy_cap_def Let_def by (rule select_loop_cap_mono) simp
  then have gen: "prefix (high_value_strategy jurisdictions is_valid_route starting_point)
          (high_value_strategy_cap \<infinity> jurisdictions is_valid_route starting_point)"
    for is_valid_route
    by (simp add: high_value_strategy_cap_8)
  show "prefix (high_value_strategy jurisdictions is_valid_route starting_point)
          (high_value_strategy_cap \<infinity> jurisdictions is_valid_route starting_point)"
    by (rule gen)
  have "high_value_strategy jurisdictions (is_valid_route_spec 8 within_budget) starting_point
      = high_value_strategy jurisdictions (is_valid_route_spec \<infinity> within_budget) starting_point"
    unfolding high_value_strategy_def Let_def
    by (rule select_loop_validators_agree) (simp add: is_valid_route_spec_def numeral_eq_enat)
  then show "prefix (high_value_strategy jurisdictions
               (is_valid_route_spec 8 within_budget) starting_point)
            (high_value_strategy_cap \<infinity> jurisdictions
               (is_valid_route_spec \<infinity> within_budget) starting_point)"
    by (simp add: gen)
qed

section \<open>The travel-time model is a metric-like function\<close>

lemma haversine_term_bounds:
  fixes s k t :: real
  assumes s: "0 \<le> s" "s \<le> 1" and k: "- s \<le> k" "k \<le> 1 - s" and t: "0 \<le> t" "t \<le> 1"
  shows "0 \<le> s + k * t \<and> s + k * t \<le> 1"
proof (cases "0 \<le> k")
  case True
  then have "0 \<le> k * t" using t by simp
  moreover have "k * t \<le> k" using True t by (simp add: mult_left_le)
  ultimately show ?thesis using s k by linarith
next
  case False
  then have neg: "k \<le> 0" by simp
  then have "k * t \<le> 0" using t by (simp add: mult_nonpos_nonneg)
  moreover have "k \<le> k * t"
    using neg t(2) mult_left_mono_neg [of t 1 k] by simp
  ultimately show ?thesis using s k by linarith
qed

lemma half_sum_bounds:
  fixes a c k s :: real
  assumes "a = 1 - 2 * s" and "k = (a + c) / 2" and "- 1 \<le> c" and "c \<le> 1"
  shows "- s \<le> k" and "k \<le> 1 - s"
  using assms by simp_all

lemma cos_product_bounds:
  fixes x y :: real
  shows "- (sin ((y - x) / 2))\<^sup>2 \<le> cos x * cos y"
    and "cos x * cos y \<le> 1 - (sin ((y - x) / 2))\<^sup>2"
proof -
  have d: "cos (x - y) = 1 - 2 * (sin ((y - x) / 2))\<^sup>2"
  proof -
    have "cos (x - y) = cos (y - x)" by (metis cos_minus minus_diff_eq)
    also have "\<dots> = cos (2 * ((y - x) / 2))"
    proof -
      have "y - x = 2 * ((y - x) / 2)" by (simp add: field_simps)
      then show ?thesis by metis
    qed
    also have "\<dots> = 1 - 2 * (sin ((y - x) / 2))\<^sup>2" by (rule cos_double_sin)
    finally show ?thesis .
  qed
  have p: "cos x * cos y = (cos (x - y) + cos (x + y)) / 2" by (rule cos_times_cos)
  have lo: "- 1 \<le> cos (x + y)" and hi: "cos (x + y) \<le> 1" by simp_all
  from d p lo hi show "- (sin ((y - x) / 2))\<^sup>2 \<le> cos x * cos y"
    by (rule half_sum_bounds)
  from d p lo hi show "cos x * cos y \<le> 1 - (sin ((y - x) / 2))\<^sup>2"
    by (rule half_sum_bounds)
qed

lemma haversine_argument_range:
  fixes x y z :: real
  shows "0 \<le> (sin ((y - x) / 2))\<^sup>2 + cos x * cos y * (sin z)\<^sup>2
       \<and> (sin ((y - x) / 2))\<^sup>2 + cos x * cos y * (sin z)\<^sup>2 \<le> 1"
proof (rule haversine_term_bounds)
  show "0 \<le> (sin ((y - x) / 2))\<^sup>2" by simp
  show "(sin ((y - x) / 2))\<^sup>2 \<le> 1" by (simp add: abs_square_le_1)
  show "- (sin ((y - x) / 2))\<^sup>2 \<le> cos x * cos y" by (rule cos_product_bounds)
  show "cos x * cos y \<le> 1 - (sin ((y - x) / 2))\<^sup>2" by (rule cos_product_bounds)
  show "0 \<le> (sin z)\<^sup>2" by simp
  show "(sin z)\<^sup>2 \<le> 1" by (simp add: abs_square_le_1)
qed

lemma haversine_km_nonneg: "0 \<le> haversine_km lat1 lon1 lat2 lon2"
proof -
  let ?a = "(sin ((radians lat2 - radians lat1) / 2))\<^sup>2
      + cos (radians lat1) * cos (radians lat2) * (sin ((radians lon2 - radians lon1) / 2))\<^sup>2"
  have "0 \<le> ?a \<and> ?a \<le> 1" by (rule haversine_argument_range)
  then have "sqrt ?a \<in> {0..1}" by (simp add: real_le_lsqrt)
  then have "0 \<le> arcsin (sqrt ?a)" by (rule arcsin_nonneg)
  then show ?thesis by (simp add: haversine_km_def Let_def)
qed

lemma sin_half_diff_sq:
  fixes x y :: real
  shows "(sin ((y - x) / 2))\<^sup>2 = (sin ((x - y) / 2))\<^sup>2"
proof -
  have "(y - x) / 2 = - ((x - y) / 2)" by (simp add: field_simps)
  then have "sin ((y - x) / 2) = - sin ((x - y) / 2)" by (metis sin_minus)
  then show ?thesis by simp
qed

lemma haversine_km_sym:
  "haversine_km lat1 lon1 lat2 lon2 = haversine_km lat2 lon2 lat1 lon1"
proof -
  have "(sin ((radians lat2 - radians lat1) / 2))\<^sup>2 = (sin ((radians lat1 - radians lat2) / 2))\<^sup>2"
    by (rule sin_half_diff_sq)
  moreover have "(sin ((radians lon2 - radians lon1) / 2))\<^sup>2 = (sin ((radians lon1 - radians lon2) / 2))\<^sup>2"
    by (rule sin_half_diff_sq)
  ultimately show ?thesis
    by (simp add: haversine_km_def Let_def mult.commute)
qed

lemma haversine_km_same: "haversine_km lat1 lon1 lat1 lon1 = 0"
  by (simp add: haversine_km_def)

text \<open>
  C9. The travel time of the Geo-Distance Model, a function of the four coordinates,
  is never negative, is the same in both directions, and is zero from a point to
  itself; for all real coordinates, also outside the valid ranges.
\<close>

theorem travel_time_nonneg_symmetric_zero:
  "0 \<le> travel_time lat1 lon1 lat2 lon2
   \<and> travel_time lat1 lon1 lat2 lon2 = travel_time lat2 lon2 lat1 lon1
   \<and> travel_time lat1 lon1 lat1 lon1 = 0"
proof (intro conjI)
  show "0 \<le> travel_time lat1 lon1 lat2 lon2"
    using haversine_km_nonneg [of lat1 lon1 lat2 lon2] by (simp add: travel_time_def)
  show "travel_time lat1 lon1 lat2 lon2 = travel_time lat2 lon2 lat1 lon1"
    using haversine_km_sym [of lat1 lon1 lat2 lon2] by (simp add: travel_time_def)
  show "travel_time lat1 lon1 lat1 lon1 = 0"
    by (simp add: travel_time_def haversine_km_same)
qed

section \<open>The output table\<close>

subsection \<open>Decimal strings\<close>

lemma of_char_digit_char: "d < 10 \<Longrightarrow> of_char (digit_char d) = 48 + d"
  by (simp add: digit_char_def)

lemma digit_char_not_underscore: "d < 10 \<Longrightarrow> digit_char d \<noteq> CHR ''_''"
proof
  assume "d < 10" and "digit_char d = CHR ''_''"
  then have "(of_char (digit_char d) :: nat) = of_char (CHR ''_'')" by simp
  with \<open>d < 10\<close> show False by (simp add: of_char_digit_char)
qed

lemma str_nat_no_underscore: "CHR ''_'' \<notin> set (str_nat n)"
proof (induction n rule: str_nat.induct)
  case (1 n)
  show ?case
  proof (cases "n < 10")
    case True
    then show ?thesis
      using digit_char_not_underscore [of n] by (subst str_nat.simps) auto
  next
    case False
    have "n mod 10 < 10" by simp
    then have "digit_char (n mod 10) \<noteq> CHR ''_''" by (rule digit_char_not_underscore)
    with False "1.IH" show ?thesis by (subst str_nat.simps) auto
  qed
qed

lemma decimal_value_str_nat: "decimal_value (str_nat n) = n"
proof (induction n rule: str_nat.induct)
  case (1 n)
  show ?case
  proof (cases "n < 10")
    case True
    then show ?thesis
      by (subst str_nat.simps) (simp add: decimal_value_def of_char_digit_char)
  next
    case False
    have d: "(of_char (digit_char (n mod 10)) :: nat) = 48 + n mod 10"
      by (rule of_char_digit_char) simp
    from False "1.IH" have "decimal_value (str_nat (n div 10)) = n div 10" by simp
    with False d show ?thesis
      by (subst str_nat.simps) (simp add: decimal_value_def)
  qed
qed

lemma str_nat_inj: "str_nat m = str_nat n \<Longrightarrow> m = n"
  by (metis decimal_value_str_nat)

lemma split_at_last_separator:
  assumes "xs @ c # s = ys @ c # t" and "c \<notin> set s" and "c \<notin> set t"
  shows "xs = ys \<and> s = t"
  using assms
  by (auto simp: append_eq_append_conv2 append_eq_Cons_conv Cons_eq_append_conv)

lemma route_id_of_inj:
  assumes "route_id_of tag day = route_id_of tag' day'"
  shows "tag = tag' \<and> day = day'"
proof -
  from assms have "tag @ CHR ''_'' # str_nat day = tag' @ CHR ''_'' # str_nat day'"
    by (simp add: route_id_of_def)
  then have "tag = tag' \<and> str_nat day = str_nat day'"
    by (rule split_at_last_separator) (rule str_nat_no_underscore)+
  then show ?thesis by (auto dest: str_nat_inj)
qed

subsection \<open>The loops of the flattening cell\<close>

lemma inner_loop_rows:
  "inner_loop route_idx poi_idx flat poi_list
     = flat @ map (\<lambda>(stop, poi). make_row route_idx stop poi) (List.enumerate poi_idx poi_list)"
  by (induction poi_list arbitrary: poi_idx flat) simp_all

lemma inner_loop_rows_of_day:
  "inner_loop route_idx 0 flat poi_list = flat @ rows_of_day route_idx poi_list"
  by (simp add: inner_loop_rows rows_of_day_def make_row_def route_id_of_def)

lemma outer_loop_rows:
  "outer_loop route_idx flat paths
     = flat @ concat (map (\<lambda>(day, route). rows_of_day day route) (List.enumerate route_idx paths))"
  by (induction paths arbitrary: route_idx flat) (simp_all add: inner_loop_rows_of_day)

lemma flat_data_spec_table: "flat_data paths = spec_table paths"
  by (simp add: flat_data_def spec_table_def outer_loop_rows)

lemma length_rows_of_day: "length (rows_of_day day route) = length route"
  by (simp add: rows_of_day_def)

lemma map_enumerate_ignoring_index:
  "map (\<lambda>(stop, poi). h poi) (List.enumerate n xs) = map h xs"
  by (induction xs arbitrary: n) simp_all

lemma stops_rows_of_day: "map stop_of_row (rows_of_day day route) = map stop_of_poi route"
proof -
  have "map stop_of_row (rows_of_day day route)
      = map (\<lambda>(stop, poi). stop_of_poi poi) (List.enumerate 0 route)"
    by (simp add: rows_of_day_def stop_of_row_def stop_of_poi_def split_def)
  then show ?thesis by (simp only: map_enumerate_ignoring_index)
qed

lemma length_flat_data: "length (flat_data paths) = sum_list (map length paths)"
proof -
  have "length (concat (map (\<lambda>(day, route). rows_of_day day route) (List.enumerate n paths)))
      = sum_list (map length paths)" for n
    by (induction paths arbitrary: n) (simp_all add: length_rows_of_day)
  then show ?thesis by (simp add: flat_data_spec_table spec_table_def)
qed

subsection \<open>Re-grouping\<close>

lemma regroup_block:
  assumes "b \<noteq> []" and "\<forall>x \<in> set b. route_id x = k" and "\<forall>x \<in> set rest. route_id x \<noteq> k"
  shows "regroup (b @ rest) = (k, b) # regroup rest"
proof -
  from assms(1) obtain r b' where b: "b = r # b'" by (cases b) auto
  with assms(2) have k: "route_id r = k" and b': "\<forall>x \<in> set b'. route_id x = k" by auto
  have "filter (\<lambda>x. route_id x = k) b' = b'" "filter (\<lambda>x. route_id x = k) rest = []"
    using b' assms(3) by (simp_all add: filter_id_conv filter_empty_conv)
  then have 1: "filter (\<lambda>x. route_id x = k) (b' @ rest) = b'" by simp
  have "filter (\<lambda>x. route_id x \<noteq> k) b' = []" "filter (\<lambda>x. route_id x \<noteq> k) rest = rest"
    using b' assms(3) by (simp_all add: filter_id_conv filter_empty_conv)
  then have 2: "filter (\<lambda>x. route_id x \<noteq> k) (b' @ rest) = rest" by simp
  show ?thesis unfolding b by (simp only: append_Cons regroup.simps k 1 2)
qed

lemma route_ids_rows_of_day:
  "map route_id (rows_of_day day route) = map (\<lambda>poi. route_id_of (jurisdiction poi) day) route"
proof -
  have "map route_id (rows_of_day day route)
      = map (\<lambda>(stop, poi). route_id_of (jurisdiction poi) day) (List.enumerate 0 route)"
    by (simp add: rows_of_day_def split_def)
  then show ?thesis by (simp only: map_enumerate_ignoring_index)
qed

lemma rows_of_day_route_id:
  assumes "x \<in> set (rows_of_day day route)"
  shows "\<exists>poi \<in> set route. route_id x = route_id_of (jurisdiction poi) day"
proof -
  from assms have "route_id x \<in> set (map route_id (rows_of_day day route))" by simp
  then show ?thesis by (auto simp: route_ids_rows_of_day)
qed

lemma later_rows_route_id:
  assumes "x \<in> set (concat (map (\<lambda>(day, route). rows_of_day day route) (List.enumerate n paths)))"
  shows "\<exists>tag day. n \<le> day \<and> route_id x = route_id_of tag day"
proof -
  from assms obtain day route where d: "(day, route) \<in> set (List.enumerate n paths)"
    and x: "x \<in> set (rows_of_day day route)"
    by auto
  from d have "n \<le> day" by (simp add: in_set_enumerate_eq)
  with rows_of_day_route_id [OF x] show ?thesis by blast
qed

lemma regroup_days:
  assumes "list_all same_jurisdiction paths"
  shows "regroup (concat (map (\<lambda>(day, route). rows_of_day day route) (List.enumerate n paths)))
     = map (\<lambda>(day, route). (route_id_of (jurisdiction (hd route)) day, rows_of_day day route))
         (filter (\<lambda>(day, route). route \<noteq> []) (List.enumerate n paths))"
  using assms
proof (induction paths arbitrary: n)
  case Nil
  then show ?case by simp
next
  case (Cons r paths)
  let ?rest = "concat (map (\<lambda>(day, route). rows_of_day day route) (List.enumerate (Suc n) paths))"
  from Cons.prems have hom: "\<forall>poi \<in> set r. jurisdiction poi = jurisdiction (hd r)"
    and rest_hom: "list_all same_jurisdiction paths"
    by (simp_all add: same_jurisdiction_def list_all_iff)
  note IH = Cons.IH [OF rest_hom, of "Suc n"]
  show ?case
  proof (cases "r = []")
    case True
    with IH show ?thesis by (simp add: rows_of_day_def)
  next
    case False
    let ?k = "route_id_of (jurisdiction (hd r)) n"
    have "regroup (rows_of_day n r @ ?rest) = (?k, rows_of_day n r) # regroup ?rest"
    proof (rule regroup_block)
      show "rows_of_day n r \<noteq> []"
        using False length_rows_of_day [of n r] by (metis length_0_conv)
      show "\<forall>x \<in> set (rows_of_day n r). route_id x = ?k"
        using hom by (auto dest!: rows_of_day_route_id)
      show "\<forall>x \<in> set ?rest. route_id x \<noteq> ?k"
      proof
        fix x assume "x \<in> set ?rest"
        then obtain tag day where "Suc n \<le> day" "route_id x = route_id_of tag day"
          using later_rows_route_id by blast
        then show "route_id x \<noteq> ?k" by (auto dest: route_id_of_inj)
      qed
    qed
    with False IH show ?thesis by simp
  qed
qed

subsection \<open>Round trip\<close>

lemma filter_nonempty_enumerate:
  "map snd (filter (\<lambda>(day, route). route \<noteq> []) (List.enumerate n paths))
     = filter (\<lambda>route. route \<noteq> []) paths"
  by (induction paths arbitrary: n) simp_all

lemma regroup_flat_data:
  assumes "list_all same_jurisdiction paths"
  shows "regroup (flat_data paths)
     = map (\<lambda>(day, route). (route_id_of (jurisdiction (hd route)) day, rows_of_day day route))
         (filter (\<lambda>(day, route). route \<noteq> []) (List.enumerate 0 paths))"
  using regroup_days [OF assms, of 0] by (simp add: flat_data_spec_table spec_table_def)

lemma length_regroup_flat_data:
  assumes "list_all same_jurisdiction paths"
  shows "length (regroup (flat_data paths)) = length (filter (\<lambda>route. route \<noteq> []) paths)"
proof -
  have "length (regroup (flat_data paths))
      = length (map snd (filter (\<lambda>(day, route). route \<noteq> []) (List.enumerate 0 paths)))"
    by (simp add: regroup_flat_data [OF assms])
  then show ?thesis by (simp only: filter_nonempty_enumerate)
qed

lemma regrouped_routes_flat_data:
  assumes "list_all same_jurisdiction paths"
  shows "regrouped_routes (flat_data paths)
     = map (map stop_of_poi) (filter (\<lambda>route. route \<noteq> []) paths)"
proof -
  have "regrouped_routes (flat_data paths)
      = map (\<lambda>(day, route). map stop_of_poi route)
          (filter (\<lambda>(day, route). route \<noteq> []) (List.enumerate 0 paths))"
    by (simp add: regrouped_routes_def regroup_flat_data [OF assms] split_def stops_rows_of_day)
  also have "\<dots> = map (map stop_of_poi)
      (map snd (filter (\<lambda>(day, route). route \<noteq> []) (List.enumerate 0 paths)))"
    by (simp add: split_def)
  finally show ?thesis by (simp only: filter_nonempty_enumerate)
qed

text \<open>
  C7, as stated, fails: a day with an empty route leaves no row, so the re-grouped
  table has one route where the run had two.
\<close>

theorem round_trip_loses_empty_route:
  "regrouped_routes (flat_data [[swimming_pool], []]) \<noteq> map (map stop_of_poi) [[swimming_pool], []]"
  by (simp add: regrouped_routes_def flat_data_def)

text \<open>
  A route whose POIs carry two jurisdiction tags is split over two route ids, which
  is why the round trip below asks for one jurisdiction per route (as the routes of
  the builder have).
\<close>

lemma round_trip_splits_mixed_route:
  "regrouped_routes (flat_data [[swimming_pool, bakery\<lparr>jurisdiction := ''J6''\<rparr>]])
     = [[stop_of_poi swimming_pool], [stop_of_poi (bakery\<lparr>jurisdiction := ''J6''\<rparr>)]]"
  by (simp add: regrouped_routes_def flat_data_def make_row_def stop_of_row_def stop_of_poi_def
      example_jurisdictions_of)

text \<open>
  C7, amended. The table has one row per (day, stop) pair, days in order and stops
  in route order, each row with the route id made of the POI's jurisdiction tag and
  the day index, the stop's index and the POI's id, latitude and longitude. When
  every route is non-empty and its POIs share one jurisdiction, re-grouping by route
  id gives one group per day, in day order, under the id of that day, holding that
  day's rows; the ids, latitudes and longitudes read from the groups are those of the
  original routes, in order.
\<close>

theorem flat_data_round_trip_nonempty:
  "flat_data paths = spec_table paths
   \<and> length (flat_data paths) = sum_list (map length paths)
   \<and> (list_all (\<lambda>route. route \<noteq> [] \<and> same_jurisdiction route) paths \<longrightarrow>
        regroup (flat_data paths)
          = map (\<lambda>(day, route). (route_id_of (jurisdiction (hd route)) day, rows_of_day day route))
              (List.enumerate 0 paths)
        \<and> regrouped_routes (flat_data paths) = map (map stop_of_poi) paths)"
proof (intro conjI impI)
  show "flat_data paths = spec_table paths" by (rule flat_data_spec_table)
  show "length (flat_data paths) = sum_list (map length paths)" by (rule length_flat_data)
next
  assume h: "list_all (\<lambda>route. route \<noteq> [] \<and> same_jurisdiction route) paths"
  then have hom: "list_all same_jurisdiction paths" by (simp add: list_all_iff)
  from h have "filter (\<lambda>(day, route). route \<noteq> []) (List.enumerate n paths) = List.enumerate n paths" for n
    by (auto simp: filter_id_conv list_all_iff in_set_enumerate_eq)
  then show "regroup (flat_data paths)
      = map (\<lambda>(day, route). (route_id_of (jurisdiction (hd route)) day, rows_of_day day route))
          (List.enumerate 0 paths)"
    by (simp add: regroup_flat_data [OF hom])
  from h have "filter (\<lambda>route. route \<noteq> []) paths = paths"
    by (simp add: filter_id_conv list_all_iff)
  then show "regrouped_routes (flat_data paths) = map (map stop_of_poi) paths"
    by (simp add: regrouped_routes_flat_data [OF hom])
qed

theorem flat_data_round_trip_nonempty_witness:
  "list_all (\<lambda>route. route \<noteq> [] \<and> same_jurisdiction route)
     [[swimming_pool, bakery], [sports_centre]]
   \<and> regroup (flat_data [[swimming_pool, bakery], [sports_centre]])
       = [(route_id_of ''J5'' 0, rows_of_day 0 [swimming_pool, bakery]),
          (route_id_of ''J5'' 1, rows_of_day 1 [sports_centre])]
   \<and> regrouped_routes (flat_data [[swimming_pool, bakery], [sports_centre]])
       = [[stop_of_poi swimming_pool, stop_of_poi bakery], [stop_of_poi sports_centre]]"
proof -
  have h: "list_all (\<lambda>route. route \<noteq> [] \<and> same_jurisdiction route)
     [[swimming_pool, bakery], [sports_centre]]"
    by (simp add: same_jurisdiction_def example_jurisdictions_of)
  from h flat_data_round_trip_nonempty [of "[[swimming_pool, bakery], [sports_centre]]"]
  have "regroup (flat_data [[swimming_pool, bakery], [sports_centre]])
      = map (\<lambda>(day, route). (route_id_of (jurisdiction (hd route)) day, rows_of_day day route))
          (List.enumerate 0 [[swimming_pool, bakery], [sports_centre]])
    \<and> regrouped_routes (flat_data [[swimming_pool, bakery], [sports_centre]])
      = map (map stop_of_poi) [[swimming_pool, bakery], [sports_centre]]"
    by blast
  with h show ?thesis by (simp add: example_jurisdictions_of)
qed

text \<open>
  C10. In a run of the builder (with the validator of the specification, for any
  stop count and budget), the table has as many rows as the routes have stops, so a
  day with an empty route contributes none; if some day's route is empty, re-grouping
  the table by route id yields strictly fewer routes than the run produced, and the
  re-grouped routes differ from the run's.
\<close>

theorem empty_route_drops_out_of_table:
  assumes "paths = build_paths jurisdictions
                     (is_valid_route_spec max_stops within_budget) starting_points"
    and "[] \<in> set paths"
  shows "length (flat_data paths) = sum_list (map length paths)
         \<and> length (regroup (flat_data paths)) < length paths
         \<and> regrouped_routes (flat_data paths) \<noteq> map (map stop_of_poi) paths"
proof -
  have hom: "list_all same_jurisdiction paths"
    unfolding list_all_iff
  proof
    fix route assume "route \<in> set paths"
    then obtain sp where r: "route = high_value_strategy jurisdictions
        (is_valid_route_spec max_stops within_budget) sp"
      by (auto simp: assms(1) build_paths_map)
    have "jurisdiction poi = jurisdiction sp" if "poi \<in> set route" for poi
      using that unfolding r by (rule built_route_jurisdiction)
    then have "jurisdiction poi = jurisdiction (hd route)" if "poi \<in> set route" for poi
      using that by (cases route) auto
    then show "same_jurisdiction route"
      by (simp add: same_jurisdiction_def list_all_iff)
  qed
  have "length (filter (\<lambda>route. route \<noteq> []) paths) < length paths"
    using assms(2) by (intro length_filter_less [of "[]"]) simp_all
  then have fewer: "length (regroup (flat_data paths)) < length paths"
    by (simp add: length_regroup_flat_data [OF hom])
  have "length (regrouped_routes (flat_data paths)) = length (regroup (flat_data paths))"
    by (simp add: regrouped_routes_def)
  with fewer have "length (regrouped_routes (flat_data paths))
      \<noteq> length (map (map stop_of_poi) paths)"
    by simp
  then have "regrouped_routes (flat_data paths) \<noteq> map (map stop_of_poi) paths"
    by metis
  with fewer show ?thesis by (simp add: length_flat_data)
qed

theorem empty_route_drops_out_of_table_witness:
  "build_paths example_jurisdictions (is_valid_route_spec 8 no_budget)
       [day1_start, day1_start\<lparr>jurisdiction := ''J9''\<rparr>]
     = [[swimming_pool, sports_centre, bakery, hairdresser], []]
   \<and> length (flat_data [[swimming_pool, sports_centre, bakery, hairdresser], []]) = 4
   \<and> length (regroup (flat_data [[swimming_pool, sports_centre, bakery, hairdresser], []])) < 2
   \<and> regrouped_routes (flat_data [[swimming_pool, sports_centre, bakery, hairdresser], []])
       \<noteq> map (map stop_of_poi) [[swimming_pool, sports_centre, bakery, hairdresser], []]"
proof -
  let ?paths = "[[swimming_pool, sports_centre, bakery, hairdresser], []]"
  have "high_value_strategy example_jurisdictions (is_valid_route_spec 8 no_budget)
      (day1_start\<lparr>jurisdiction := ''J9''\<rparr>) = []"
    by (rule no_candidates_empty_route) (simp add: dict_get_def example_jurisdictions_def)
  then have run: "?paths = build_paths example_jurisdictions (is_valid_route_spec 8 no_budget)
      [day1_start, day1_start\<lparr>jurisdiction := ''J9''\<rparr>]"
    by (simp add: build_paths_map example_route)
  have empty: "[] \<in> set ?paths" by simp
  from empty_route_drops_out_of_table [OF run empty]
  have "length (flat_data ?paths) = sum_list (map length ?paths)
      \<and> length (regroup (flat_data ?paths)) < length ?paths
      \<and> regrouped_routes (flat_data ?paths) \<noteq> map (map stop_of_poi) ?paths" .
  then show ?thesis by (simp add: run [symmetric])
qed

end
